theory Spec2Isabelle
  imports
    Complex_Main
    "HOL-Library.Char_ord"
    "HOL-Library.List_Lexorder"
    "HOL-Library.Product_Lexorder"
begin

section \<open>Event study machinery (eventstudy.py)\<close>

text \<open>
  The class \<open>EventStudy\<close> works on pandas objects. A DataFrame is modelled column-major:
  its row labels (\<open>index\<close>) and, per column label, the list of its cells from the
  first row to the last. A missing cell (NaN, NaT) is \<open>None\<close>. Timestamps are integers,
  asset names are strings. The values of the panel and of the events are real numbers:
  the operations modelled here move, blank and count them and never compute with them
  (\<open>event_weighted_mean\<close>, which computes in floating point, is not modelled).
  Row and column labels are taken to be unique, as pandas needs them to be for
  \<open>reindex_like\<close>; lookups by label return the first match.
\<close>

datatype error = ValueError | ZeroDivisionError | AttributeError | KeyError

record 'v frame =
  index :: "int list"
  cols :: "(string \<times> 'v option list) list"

record 'v series =
  s_name :: string
  s_index :: "int list"
  s_values :: "'v option list"

datatype 'v pd_obj = Series "'v series" | DataFrame "'v frame"

definition columns :: "'v frame \<Rightarrow> string list" where
  "columns df = map fst (cols df)"

definition len :: "'v frame \<Rightarrow> nat" where
  "len df = length (index df)"

text \<open>The column with label \<open>c\<close>; a column of missing cells if the label is absent.\<close>

definition col :: "'v frame \<Rightarrow> string \<Rightarrow> 'v option list" where
  "col df c = (case map_of (cols df) c of
                 Some xs \<Rightarrow> xs
               | None \<Rightarrow> replicate (length (index df)) None)"

text \<open>Position of a label in an index (first occurrence).\<close>

fun index_of :: "int list \<Rightarrow> int \<Rightarrow> nat option" where
  "index_of [] t = None"
| "index_of (x # xs) t = (if x = t then Some 0 else map_option Suc (index_of xs t))"

text \<open>Cell at row label \<open>t\<close> and column label \<open>c\<close>; missing if either label is absent.\<close>

definition cell :: "'v frame \<Rightarrow> string \<Rightarrow> int \<Rightarrow> 'v option" where
  "cell df c t = (case map_of (cols df) c of
                    None \<Rightarrow> None
                  | Some xs \<Rightarrow> (case index_of (index df) t of
                                 None \<Rightarrow> None
                               | Some i \<Rightarrow> if i < length xs then xs ! i else None))"

subsection \<open>pandas operations used by the class\<close>

text \<open>
  \<open>DataFrame.reindex_like(other)\<close>: the labels of \<open>other\<close>, the cells of the frame
  where it has them.
\<close>

definition reindex_like :: "'v frame \<Rightarrow> 'w frame \<Rightarrow> 'v frame" where
  "reindex_like df other =
     \<lparr>index = index other,
      cols = map (\<lambda>c. (c, map (\<lambda>t. cell df c t) (index other))) (columns other)\<rparr>"

text \<open>\<open>notnull\<close>, \<open>isnull\<close> on a cell.\<close>

definition notnull :: "'v option \<Rightarrow> bool" where
  "notnull x \<longleftrightarrow> x \<noteq> None"

definition map_cells :: "('v option \<Rightarrow> 'w option) \<Rightarrow> 'v frame \<Rightarrow> 'w frame" where
  "map_cells f df = \<lparr>index = index df, cols = map (\<lambda>(c, xs). (c, map f xs)) (cols df)\<rparr>"

definition map_columns :: "('v option list \<Rightarrow> 'w option list) \<Rightarrow> 'v frame \<Rightarrow> 'w frame" where
  "map_columns f df = \<lparr>index = index df, cols = map (\<lambda>(c, xs). (c, f xs)) (cols df)\<rparr>"

text \<open>
  \<open>pad_inplace\<close> of pandas (the loop behind \<open>ffill(limit=lim)\<close>), on one column:
  \<open>val\<close> is the last value seen, \<open>fill_count\<close> the number of cells filled since.
  pandas starts with \<open>val = values[0]\<close>; starting from a missing \<open>val\<close> is the same,
  since a present first cell sets \<open>val\<close> at once and a missing one is filled by itself.
\<close>

fun pad_inplace :: "nat \<Rightarrow> 'v option \<Rightarrow> nat \<Rightarrow> 'v option list \<Rightarrow> 'v option list" where
  "pad_inplace limit val fill_count [] = []"
| "pad_inplace limit val fill_count (None # xs) =
     (if fill_count \<ge> limit then None # pad_inplace limit val fill_count xs
      else val # pad_inplace limit val (fill_count + 1) xs)"
| "pad_inplace limit val fill_count (Some v # xs) = Some v # pad_inplace limit (Some v) 0 xs"

definition ffill_col :: "nat \<Rightarrow> 'v option list \<Rightarrow> 'v option list" where
  "ffill_col limit xs = pad_inplace limit None 0 xs"

text \<open>\<open>backfill_inplace\<close> runs the same loop from the last row to the first.\<close>

definition bfill_col :: "nat \<Rightarrow> 'v option list \<Rightarrow> 'v option list" where
  "bfill_col limit xs = rev (pad_inplace limit None 0 (rev xs))"

text \<open>
  \<open>limit\<close> "must be greater than 0 if not None": pandas raises \<open>ValueError\<close>
  otherwise. The check sits in the fill loop of a block that can hold missing values.
  In \<open>mark_event_windows\<close> the frame filled is \<open>notnull().replace(False, nan)\<close>:
  a column in which \<open>False\<close> was replaced holds objects and is filled; a column that
  is \<open>True\<close> in every row stays boolean, and filling it does nothing and checks nothing.
\<close>

definition validate_limit :: "int \<Rightarrow> error + nat" where
  "validate_limit limit = (if limit < 1 then Inl ValueError else Inr (nat limit))"

definition holds_na :: "'v frame \<Rightarrow> bool" where
  "holds_na df = list_ex (\<lambda>c. list_ex (\<lambda>x. x = None) (snd c)) (cols df)"

text \<open>
  A fill of a frame: \<open>can_hold_na\<close> says whether the frame has a block that can hold
  missing values; the fill of one column is \<open>f\<close>.
\<close>

definition fill_frame ::
  "(nat \<Rightarrow> 'v option list \<Rightarrow> 'v option list) \<Rightarrow> bool \<Rightarrow> int \<Rightarrow> 'v frame \<Rightarrow> error + 'v frame"
where
  "fill_frame f can_hold_na limit df =
     (if \<not> can_hold_na then Inr df
      else case validate_limit limit of
             Inl e \<Rightarrow> Inl e
           | Inr n \<Rightarrow> Inr (map_columns (f n) df))"

definition bfill :: "bool \<Rightarrow> int \<Rightarrow> 'v frame \<Rightarrow> error + 'v frame" where
  "bfill = fill_frame bfill_col"

definition ffill :: "bool \<Rightarrow> int \<Rightarrow> 'v frame \<Rightarrow> error + 'v frame" where
  "ffill = fill_frame ffill_col"

text \<open>A boolean frame: same labels, no missing cells.\<close>

record bframe =
  b_index :: "int list"
  b_cols :: "(string \<times> bool list) list"

definition to_bool :: "('v option \<Rightarrow> bool) \<Rightarrow> 'v frame \<Rightarrow> bframe" where
  "to_bool p df = \<lparr>b_index = index df, b_cols = map (\<lambda>(c, xs). (c, map p xs)) (cols df)\<rparr>"

text \<open>\<open>fillna(False).astype(bool)\<close> on a frame of \<open>True\<close>/missing cells.\<close>

definition fillna_False :: "bool option \<Rightarrow> bool" where
  "fillna_False x = (case x of None \<Rightarrow> False | Some b \<Rightarrow> b)"

text \<open>Cell-wise operation on two boolean frames with the same labels.\<close>

definition bzip :: "(bool \<Rightarrow> bool \<Rightarrow> bool) \<Rightarrow> bframe \<Rightarrow> bframe \<Rightarrow> bframe" where
  "bzip f a b =
     \<lparr>b_index = b_index a,
      b_cols = map (\<lambda>((c, xs), (d, ys)). (c, map (\<lambda>(x, y). f x y) (zip xs ys)))
                 (zip (b_cols a) (b_cols b))\<rparr>"

definition bcol :: "bframe \<Rightarrow> string \<Rightarrow> bool list" where
  "bcol m c = (case map_of (b_cols m) c of Some xs \<Rightarrow> xs | None \<Rightarrow> [])"

subsection \<open>The engine, its construction and the window marker\<close>

record engine =
  data :: "real frame"
  events :: "real frame"
  window :: "int \<times> int"
  event_date_index :: int

text \<open>\<open>dropna(how="all").index\<close>: the labels of the rows with a value in some column.\<close>

definition row_all_null :: "'v frame \<Rightarrow> nat \<Rightarrow> bool" where
  "row_all_null df i = list_all (\<lambda>c. i < length (snd c) \<longrightarrow> snd c ! i = None) (cols df)"

definition dropna_all_index :: "'v frame \<Rightarrow> int list" where
  "dropna_all_index df =
     map (\<lambda>i. index df ! i) (filter (\<lambda>i. \<not> row_all_null df i) [0 ..< length (index df)])"

definition s_dropna_index :: "'v series \<Rightarrow> int list" where
  "s_dropna_index s =
     map fst (filter (\<lambda>(t, x). x \<noteq> None) (zip (s_index s) (s_values s)))"

definition pd_index :: "'v pd_obj \<Rightarrow> int list" where
  "pd_index x = (case x of Series s \<Rightarrow> s_index s | DataFrame df \<Rightarrow> index df)"

definition pd_dropna_index :: "'v pd_obj \<Rightarrow> int list" where
  "pd_dropna_index x =
     (case x of Series s \<Rightarrow> s_dropna_index s | DataFrame df \<Rightarrow> dropna_all_index df)"

text \<open>\<open>Index.union\<close> of two indexes of unique labels: every label once.\<close>

definition index_union :: "int list \<Rightarrow> int list \<Rightarrow> int list" where
  "index_union xs ys = sort (remdups (xs @ ys))"

definition to_frame :: "'v series \<Rightarrow> string \<Rightarrow> 'v frame" where
  "to_frame s name = \<lparr>index = s_index s, cols = [(name, s_values s)]\<rparr>"

text \<open>\<open>pd.concat([events] * n, axis=1, keys=data.columns)\<close>.\<close>

definition broadcast :: "'v series \<Rightarrow> string list \<Rightarrow> 'v frame" where
  "broadcast s keys = \<lparr>index = s_index s, cols = map (\<lambda>c. (c, s_values s)) keys\<rparr>"

text \<open>
  \<open>events.align(data, axis=1, join="inner")\<close>: both frames keep the columns they share,
  in the order of the left one; the rows are left alone.
\<close>

definition select_columns :: "string list \<Rightarrow> 'v frame \<Rightarrow> 'v frame" where
  "select_columns cs df = \<lparr>index = index df, cols = map (\<lambda>c. (c, col df c)) cs\<rparr>"

definition align_inner :: "'v frame \<Rightarrow> 'w frame \<Rightarrow> 'v frame \<times> 'w frame" where
  "align_inner l r =
     (let common = filter (\<lambda>c. c \<in> set (columns r)) (columns l)
      in (select_columns common l, select_columns common r))"

text \<open>
  \<open>EventStudy.__init__\<close>. The warning about dropped columns has no effect on the
  result and is left out.
\<close>

definition init :: "real pd_obj \<Rightarrow> real pd_obj \<Rightarrow> int \<times> int \<Rightarrow> int \<Rightarrow> error + engine" where
  "init data0 events0 window0 edi =
     (if length (index_union (pd_index data0) (pd_dropna_index events0)) > length (pd_index data0)
      then Inl ValueError
      else
        let (d, ev) =
          (case data0 of
             Series s \<Rightarrow>
               (to_frame s (s_name s),
                case events0 of
                  Series es \<Rightarrow> to_frame es (s_name s)
                | DataFrame ef \<Rightarrow> ef)
           | DataFrame df \<Rightarrow>
               (df,
                case events0 of
                  Series es \<Rightarrow> broadcast es (columns df)
                | DataFrame ef \<Rightarrow> ef));
          (ev', d') = align_inner ev d
        in Inr \<lparr>data = d', events = ev', window = window0, event_date_index = edi\<rparr>)"

text \<open>
  \<open>events_reidx = self.events.reindex_like(self.data)\<close>, then
  \<open>notnull().replace(False, np.nan)\<close>: \<open>True\<close> at an event, missing elsewhere.
  The frame has a block that can hold missing values iff some cell was replaced
  (\<open>holds_na\<close>); the fills keep that block, whatever they fill.
\<close>

definition events_reidx :: "engine \<Rightarrow> bool frame" where
  "events_reidx e =
     map_cells (\<lambda>x. if notnull x then Some True else None)
       (reindex_like (events e) (data e))"

text \<open>
  \<open>mask_confusing\<close>: the slots reached by the backward fill and by the forward fill
  that are no event themselves.
\<close>

definition mask_confusing :: "engine \<Rightarrow> error + bframe" where
  "mask_confusing e =
     (let (w_s, w_e0) = window e;
          w_e = w_e0 - event_date_index e;
          er = events_reidx e;
          na = holds_na er
      in case bfill na (- w_s) er of
           Inl err \<Rightarrow> Inl err
         | Inr b \<Rightarrow>
             (case ffill na w_e er of
                Inl err \<Rightarrow> Inl err
              | Inr f \<Rightarrow>
                  Inr (bzip (\<and>)
                        (bzip (\<and>) (to_bool fillna_False b) (to_bool fillna_False f))
                        (to_bool (\<lambda>x. x = None) er))))"

text \<open>\<open>EventStudy.mark_event_windows\<close>.\<close>

definition mark_event_windows :: "engine \<Rightarrow> bool \<Rightarrow> error + bframe" where
  "mark_event_windows e excl_ambig =
     (let (w_s, w_e0) = window e;
          w_e = w_e0 - event_date_index e;
          er = events_reidx e;
          na = holds_na er
      in case mask_confusing e of
           Inl err \<Rightarrow> Inl err
         | Inr mc \<Rightarrow>
             (case bfill na (- w_s) er of
                Inl err \<Rightarrow> Inl err
              | Inr b \<Rightarrow>
                  (case ffill na w_e b of
                     Inl err \<Rightarrow> Inl err
                   | Inr bf \<Rightarrow>
                       (let res = to_bool notnull bf
                        in Inr (if excl_ambig
                                then bzip (\<lambda>r m. if m then False else r) res mc
                                else res)))))"

subsection \<open>The pivoter\<close>

text \<open>
  The event-relative panel: the row labels are relative offsets, the column labels are
  pairs of an asset and the timestamp of one of its events. Offsets are whole numbers
  (pandas holds them as floats).
\<close>

record erp =
  r_index :: "int list"
  r_cols :: "((string \<times> int) \<times> real option list) list"

text \<open>Cell-wise operation on two frames with the same labels.\<close>

definition combine :: "('u \<Rightarrow> 'v \<Rightarrow> 'w) \<Rightarrow> (string \<times> 'u list) list \<Rightarrow> (string \<times> 'v list) list
    \<Rightarrow> (string \<times> 'w list) list" where
  "combine f a b =
     map (\<lambda>((c, xs), (d, ys)). (c, map (\<lambda>(x, y). f x y) (zip xs ys))) (zip a b)"

text \<open>\<open>a.fillna(b)\<close>: the cells of \<open>a\<close>, and those of \<open>b\<close> where \<open>a\<close> has none.\<close>

definition fillna :: "'v frame \<Rightarrow> 'v frame \<Rightarrow> 'v frame" where
  "fillna a b =
     \<lparr>index = index a,
      cols = combine (\<lambda>x y. case x of None \<Rightarrow> y | Some v \<Rightarrow> Some v) (cols a) (cols b)\<rparr>"

text \<open>\<open>a.where(m)\<close>: the cells of \<open>a\<close> where the mask is true, missing elsewhere.\<close>

definition where_mask :: "'v frame \<Rightarrow> bframe \<Rightarrow> 'v frame" where
  "where_mask a m =
     \<lparr>index = index a,
      cols = combine (\<lambda>x b. if b then x else None) (cols a) (b_cols m)\<rparr>"

text \<open>
  The loop of \<open>pivot\<close> that grows the offsets (\<open>periods\<close>) and the event dates
  (\<open>evt_dates\<close>) around the events, \<open>n\<close> iterations to go. Every fill has
  \<open>limit=1\<close>.
\<close>

fun grow :: "nat \<Rightarrow> int \<Rightarrow> int \<Rightarrow> int \<Rightarrow> int \<Rightarrow> int frame \<Rightarrow> int frame \<Rightarrow> int frame \<times> int frame" where
  "grow 0 w_s w_e count_bef count_aft periods evt_dates = (periods, evt_dates)"
| "grow (Suc n) w_s w_e count_bef count_aft periods evt_dates =
     (let (periods1, evt_dates1, count_bef1) =
            (if count_bef \<ge> w_s
             then (fillna periods
                     (map_columns (bfill_col 1) (map_cells (map_option (\<lambda>p. p - 1)) periods)),
                   map_columns (bfill_col 1) evt_dates,
                   count_bef - 1)
             else (periods, evt_dates, count_bef));
          (periods2, evt_dates2, count_aft2) =
            (if count_aft \<le> w_e
             then (fillna periods1
                     (map_columns (ffill_col 1) (map_cells (map_option (\<lambda>p. p + 1)) periods1)),
                   map_columns (ffill_col 1) evt_dates1,
                   count_aft + 1)
             else (periods1, evt_dates1, count_aft))
      in grow n w_s w_e count_bef1 count_aft2 periods2 evt_dates2)"

text \<open>
  The rows of \<open>res\<close> before \<open>unstack\<close>, one per slot that has an event date and an
  offset: the labels (asset, event date, offset) and the value of the panel at the slot.
\<close>

definition stacked_rows ::
  "int frame \<Rightarrow> int frame \<Rightarrow> real frame \<Rightarrow> ((string \<times> int \<times> int) \<times> real option) list" where
  "stacked_rows evt_dates periods dat =
     concat (map (\<lambda>((c, ds), (c', ps)).
        concat (map (\<lambda>(dt, p, v). case (dt, p) of
                        (Some t0, Some d) \<Rightarrow> [((c, t0, d), v)]
                      | _ \<Rightarrow> [])
                  (zip ds (zip ps (col dat c)))))
       (zip (cols evt_dates) (cols periods)))"

text \<open>
  \<open>EventStudy.pivot\<close>. \<open>evt_dates\<close> and \<open>periods\<close> are missing at the same slots: they
  start so, and every step fills or blanks them alike; so a row of the stacked pairs has
  both labels. \<open>squeeze()\<close> of a single row gives a scalar, which has no \<open>unstack\<close>;
  \<open>unstack\<close> raises \<open>ValueError\<close> on duplicate labels. An engine without columns has
  no \<open>evt_dt\<close> and \<open>d_periods\<close> to index by: \<open>KeyError\<close>. With columns and no row
  at all the model returns the empty table.
\<close>

definition pivot :: "engine \<Rightarrow> error + erp" where
  "pivot e =
     (let (w_s, w_e) = window e;
          dates = index (data e);
          evt_dates0 = \<lparr>index = dates,
                        cols = map (\<lambda>c. (c, map (\<lambda>t. if notnull (cell (events e) c t)
                                                      then Some t else None) dates))
                                 (columns (data e))\<rparr>;
          periods0 = \<lparr>index = dates,
                      cols = map (\<lambda>c. (c, map (\<lambda>t. if notnull (cell (events e) c t)
                                                    then Some (event_date_index e) else None) dates))
                               (columns (data e))\<rparr>;
          count_bef = - 1;
          count_aft = (if event_date_index e = 1 then 1 else 0);
          (periods1, evt_dates1) =
            grow (nat (max \<bar>w_s\<bar> \<bar>w_e\<bar>)) w_s w_e count_bef count_aft periods0 evt_dates0
      in case mark_event_windows e True of
           Inl err \<Rightarrow> Inl err
         | Inr evt_w \<Rightarrow>
             (let evt_dates2 = where_mask evt_dates1 evt_w;
                  periods2 = where_mask periods1 evt_w;
                  rows = stacked_rows evt_dates2 periods2 (data e)
              in if columns (data e) = [] then Inl KeyError
                 else if length rows = 1 then Inl AttributeError
                 else if \<not> distinct (map fst rows) then Inl ValueError
                 else
                   (let offsets = filter (\<lambda>d. w_s \<le> d \<and> d \<le> w_e)
                                    (sort (remdups (map (\<lambda>((c, t0, d), v). d) rows)));
                        keys = sort (remdups (map (\<lambda>((c, t0, d), v). (c, t0)) rows))
                    in Inr \<lparr>r_index = offsets,
                            r_cols = map (\<lambda>(c, t0).
                                       ((c, t0),
                                        map (\<lambda>d. case map_of rows (c, t0, d) of
                                                    None \<Rightarrow> None
                                                  | Some v \<Rightarrow> v) offsets))
                                     keys\<rparr>)))"

subsection \<open>The bootstrapper\<close>

text \<open>\<open>DataFrame.count()\<close> at one column: the number of its cells that have a value.\<close>

definition count_col :: "'v option list \<Rightarrow> nat" where
  "count_col xs = length (filter (\<lambda>x. x \<noteq> None) xs)"

definition count :: "'v frame \<Rightarrow> string \<Rightarrow> nat" where
  "count df c = count_col (col df c)"

text \<open>\<open>~m\<close> on a boolean frame.\<close>

definition bnot :: "bframe \<Rightarrow> bframe" where
  "bnot m = \<lparr>b_index = b_index m, b_cols = map (\<lambda>(c, bs). (c, map Not bs)) (b_cols m)\<rparr>"

text \<open>\<open>dropna(how="all")\<close>: the rows with a value in some column.\<close>

definition dropna_all :: "'v frame \<Rightarrow> 'v frame" where
  "dropna_all df =
     (let keep = filter (\<lambda>i. \<not> row_all_null df i) [0 ..< length (index df)]
      in \<lparr>index = map (\<lambda>i. index df ! i) keep,
          cols = map (\<lambda>(c, xs). (c, map (\<lambda>i. xs ! i) keep)) (cols df)\<rparr>)"

text \<open>\<open>df.iloc[p:p+block_size]\<close> for \<open>p \<ge> 0\<close> and \<open>block_size \<ge> 0\<close>.\<close>

definition iloc_rows :: "nat \<Rightarrow> nat \<Rightarrow> 'v frame \<Rightarrow> 'v frame" where
  "iloc_rows p block_size df =
     \<lparr>index = take block_size (drop p (index df)),
      cols = map (\<lambda>(c, xs). (c, take block_size (drop p xs))) (cols df)\<rparr>"

text \<open>
  \<open>a.append(b, ignore_index=True)\<close>, and \<open>pd.concat(dfs, axis=0, ignore_index=True)\<close>
  of a non-empty list of frames with the columns of the first: the rows one after the
  other, labelled \<open>0, 1, 2, \<dots>\<close>.
\<close>

definition append_rows :: "'v frame \<Rightarrow> 'v frame \<Rightarrow> 'v frame" where
  "append_rows a b =
     \<lparr>index = map int [0 ..< length (index a) + length (index b)],
      cols = map (\<lambda>(c, xs). (c, xs @ col b c)) (cols a)\<rparr>"

definition concat_rows :: "'v frame list \<Rightarrow> 'v frame" where
  "concat_rows dfs =
     foldl append_rows \<lparr>index = [], cols = map (\<lambda>c. (c, [])) (columns (hd dfs))\<rparr> dfs"

text \<open>
  The random source is a sequence \<open>rng\<close> of natural numbers, read from position \<open>j\<close> on.
  \<open>np.random.choice(np.arange(k), sz, replace=True)\<close>: \<open>ValueError\<close> for a negative
  size \<open>sz\<close>, and for an empty population unless no sample is taken.
\<close>

definition choice :: "(nat \<Rightarrow> nat) \<Rightarrow> nat \<Rightarrow> int \<Rightarrow> int \<Rightarrow> error + nat list" where
  "choice rng j k sz =
     (if sz < 0 \<or> (k \<le> 0 \<and> sz \<noteq> 0) then Inl ValueError
      else Inr (map (\<lambda>i. rng (j + i) mod nat k) [0 ..< nat sz]))"

text \<open>
  \<open>replace=False\<close>: \<open>v\<close> draws from \<open>pool\<close>, each drawn element removed from it.
  The caller has checked that \<open>v\<close> is at most the size of the pool.
\<close>

fun choice_wo :: "(nat \<Rightarrow> nat) \<Rightarrow> nat \<Rightarrow> nat list \<Rightarrow> nat \<Rightarrow> nat list" where
  "choice_wo rng j pool 0 = []"
| "choice_wo rng j pool (Suc v) =
     (let i = rng j mod length pool
      in pool ! i # choice_wo rng (Suc j) (take i pool @ drop (Suc i) pool) v)"

text \<open>
  \<open>booted.count().lt(self.data.count()).any()\<close>: some asset has fewer values in the
  synthetic series than in the panel.
\<close>

definition short_of :: "engine \<Rightarrow> real frame \<Rightarrow> bool" where
  "short_of e booted = list_ex (\<lambda>c. count booted c < count (data e) c) (columns (data e))"

text \<open>
  The \<open>while\<close> loop, which appends one more random block as long as an asset is short.
  It need not end: \<open>fuel\<close> bounds the number of iterations, and the result is \<open>None\<close>
  when the bound is reached with an asset still short. The result holds the next
  position of the random source too.
\<close>

fun while_short ::
  "nat \<Rightarrow> (nat \<Rightarrow> nat) \<Rightarrow> nat \<Rightarrow> engine \<Rightarrow> real frame \<Rightarrow> nat \<Rightarrow> nat \<Rightarrow> real frame
     \<Rightarrow> (real frame \<times> nat) option" where
  "while_short 0 rng j e boot_from k block_size booted =
     (if short_of e booted then None else Some (booted, j))"
| "while_short (Suc fuel) rng j e boot_from k block_size booted =
     (if short_of e booted
      then while_short fuel rng (Suc j) e boot_from k block_size
             (append_rows booted (iloc_rows (rng j mod k) block_size boot_from))
      else Some (booted, j))"

text \<open>
  The synthetic events: for each asset \<open>c\<close> with \<open>v\<close> events, \<open>v\<close> rows drawn without
  replacement from the \<open>n\<close> rows of the synthetic series.
\<close>

fun place_events :: "(nat \<Rightarrow> nat) \<Rightarrow> nat \<Rightarrow> nat \<Rightarrow> (string \<times> nat) list \<Rightarrow> (string \<times> nat list) list" where
  "place_events rng j n [] = []"
| "place_events rng j n ((c, v) # cvs) =
     (c, choice_wo rng j [0 ..< n] v) # place_events rng (j + v) n cvs"

text \<open>
  \<open>pd.concat({c: pd.Series(index=..., data=1)}, axis=1)\<close>: the rows are the drawn rows
  in the order drawn, each once; a column has 1 at its own rows.
\<close>

definition events_frame :: "(string \<times> nat list) list \<Rightarrow> real frame" where
  "events_frame placed =
     (let idx = rev (remdups (rev (map int (concat (map snd placed)))))
      in \<lparr>index = idx,
          cols = map (\<lambda>(c, rows). (c, map (\<lambda>t. if t \<in> int ` set rows then Some 1 else None) idx))
                   placed\<rparr>)"

text \<open>
  The event-free pool:
  \<open>self.data.where(~self.mark_event_windows(excl_ambig=False)).dropna(how="all")\<close>.
\<close>

definition boot_from :: "engine \<Rightarrow> error + real frame" where
  "boot_from e =
     (case mark_event_windows e False of
        Inl err \<Rightarrow> Inl err
      | Inr m \<Rightarrow> Inr (dropna_all (where_mask (data e) (bnot m))))"

text \<open>
  \<open>block_size\<close> as given, or \<open>min(10, int(np.sqrt(len(self.data))))\<close>.
\<close>

definition block_size_of :: "engine \<Rightarrow> int option \<Rightarrow> int" where
  "block_size_of e block_size =
     (case block_size of
        Some b \<Rightarrow> b
      | None \<Rightarrow> min 10 \<lfloor>sqrt (real (len (data e)))\<rfloor>)"

text \<open>
  \<open>EventStudy.bootstrap_wo_events\<close>, with the bound \<open>fuel\<close> on the loop and the random
  source \<open>rng\<close>. \<open>int(np.ceil(n / b))\<close> is \<open>- ((- n) div b)\<close>; the division raises
  \<open>ZeroDivisionError\<close> for \<open>b = 0\<close>. \<open>pd.concat\<close> raises \<open>ValueError\<close> when it is
  given no object, \<open>np.random.choice\<close> with \<open>replace=False\<close> when the sample is larger
  than the population.
\<close>

definition bootstrap_wo_events ::
  "nat \<Rightarrow> (nat \<Rightarrow> nat) \<Rightarrow> engine \<Rightarrow> int option \<Rightarrow> (error + engine) option" where
  "bootstrap_wo_events fuel rng e block_size0 =
     (let block_size = block_size_of e block_size0
      in if block_size = 0 then Some (Inl ZeroDivisionError)
         else
           (let n_blocks = - ((- int (len (data e))) div block_size)
            in case boot_from e of
                 Inl err \<Rightarrow> Some (Inl err)
               | Inr pool \<Rightarrow>
                   (let k = int (len pool) - block_size
                    in case choice rng 0 k (n_blocks * 2) of
                         Inl err \<Rightarrow> Some (Inl err)
                       | Inr rnd_choice \<Rightarrow>
                           if rnd_choice = [] then Some (Inl ValueError)
                           else
                             (case while_short fuel rng (length rnd_choice) e pool (nat k)
                                     (nat block_size)
                                     (concat_rows
                                        (map (\<lambda>p. iloc_rows p (nat block_size) pool) rnd_choice)) of
                                None \<Rightarrow> None
                              | Some (booted, j) \<Rightarrow>
                                  (let n_events = map (\<lambda>c. (c, count (events e) c))
                                                    (columns (events e))
                                   in if n_events = [] \<or>
                                         list_ex (\<lambda>(c, v). len booted < v) n_events
                                      then Some (Inl ValueError)
                                      else Some (init (DataFrame booted)
                                                   (DataFrame
                                                      (events_frame
                                                         (place_events rng j (len booted) n_events)))
                                                   (window e) (event_date_index e)))))))"


subsection \<open>Notions used in the statements\<close>

text \<open>
  The slot of asset \<open>c\<close> at row \<open>i\<close> of the panel is an event timestamp: the event
  frame has a value for \<open>c\<close> at the \<open>i\<close>-th timestamp of the panel's calendar.
\<close>

definition event_at :: "engine \<Rightarrow> string \<Rightarrow> nat \<Rightarrow> bool" where
  "event_at e c i \<longleftrightarrow> notnull (cell (events e) c (index (data e) ! i))"

text \<open>The value of a mask for asset \<open>c\<close> at row \<open>i\<close>.\<close>

definition mask_at :: "bframe \<Rightarrow> string \<Rightarrow> nat \<Rightarrow> bool" where
  "mask_at m c i \<longleftrightarrow> bcol m c ! i"

text \<open>The column of \<open>events_reidx\<close> for asset \<open>c\<close>.\<close>

definition marker :: "engine \<Rightarrow> string \<Rightarrow> bool option list" where
  "marker e c = map (\<lambda>t. if notnull (cell (events e) c t) then Some True else None) (index (data e))"

text \<open>
  What \<open>mark_event_windows\<close> computes in one column \<open>xs\<close> of \<open>events_reidx\<close>, with the
  two limits already validated.
\<close>

definition mew_col :: "nat \<Rightarrow> nat \<Rightarrow> bool \<Rightarrow> bool option list \<Rightarrow> bool list" where
  "mew_col n1 n2 excl xs =
     (if excl then
        map (\<lambda>(r, m). if m then False else r)
          (zip (map notnull (ffill_col n2 (bfill_col n1 xs)))
             (map (\<lambda>(bf, z). bf \<and> z)
                (zip (map (\<lambda>(b, f). b \<and> f)
                       (zip (map fillna_False (bfill_col n1 xs))
                            (map fillna_False (ffill_col n2 xs))))
                     (map (\<lambda>x. x = None) xs))))
      else map notnull (ffill_col n2 (bfill_col n1 xs)))"

text \<open>
  Row \<open>i\<close> lies within \<open>-start\<close> periods before an event of asset \<open>c\<close>, and within
  \<open>end - event_date_index\<close> periods after one.
\<close>

definition before_event :: "engine \<Rightarrow> string \<Rightarrow> nat \<Rightarrow> bool" where
  "before_event e c i \<longleftrightarrow>
     (\<exists>j. i < j \<and> j < len (data e) \<and> event_at e c j \<and> int j \<le> int i - fst (window e))"

definition after_event :: "engine \<Rightarrow> string \<Rightarrow> nat \<Rightarrow> bool" where
  "after_event e c i \<longleftrightarrow>
     (\<exists>j<i. event_at e c j \<and> int i \<le> int j + (snd (window e) - event_date_index e))"

subsection \<open>Example inputs\<close>

text \<open>
  A panel of the ten daily values 1 to 10 of one asset, and events on it; a panel of six
  days.
\<close>

definition panel10 :: "real frame" where
  "panel10 = \<lparr>index = [1, 2, 3, 4, 5, 6, 7, 8, 9, 10],
              cols = [(''X'', [Some 1, Some 2, Some 3, Some 4, Some 5,
                               Some 6, Some 7, Some 8, Some 9, Some 10])]\<rparr>"

definition event_day5 :: "real frame" where
  "event_day5 = \<lparr>index = [5], cols = [(''X'', [Some 1])]\<rparr>"

definition engine5 :: engine where
  "engine5 = \<lparr>data = panel10, events = event_day5, window = (-2, 2), event_date_index = 0\<rparr>"

definition engine5_post :: engine where
  "engine5_post = \<lparr>data = panel10, events = event_day5, window = (-2, 2), event_date_index = 1\<rparr>"

definition events_3_6 :: "real frame" where
  "events_3_6 = \<lparr>index = [3, 6], cols = [(''X'', [Some 50, Some 25])]\<rparr>"

definition engine36 :: engine where
  "engine36 = \<lparr>data = panel10, events = events_3_6, window = (-2, 2), event_date_index = 0\<rparr>"

definition engine5_from0 :: engine where
  "engine5_from0 = \<lparr>data = panel10, events = event_day5, window = (0, 2), event_date_index = 0\<rparr>"


definition panel10_scaled :: "real frame" where
  "panel10_scaled = \<lparr>index = [1, 2, 3, 4, 5, 6, 7, 8, 9, 10],
              cols = [(''X'', [Some 2, Some 4, None, Some 8, Some 10,
                               Some 12, Some 14, Some 16, Some 18, Some 20])]\<rparr>"

definition events_3_6_other :: "real frame" where
  "events_3_6_other = \<lparr>index = [3, 4, 6], cols = [(''X'', [Some 75, None, Some 100])]\<rparr>"

definition engine36_other :: engine where
  "engine36_other =
     \<lparr>data = panel10_scaled, events = events_3_6_other, window = (-2, 2), event_date_index = 0\<rparr>"

definition panel6 :: "real frame" where
  "panel6 = \<lparr>index = [1, 2, 3, 4, 5, 6],
             cols = [(''X'', [Some 1, Some 2, Some 3, Some 4, Some 5, Some 6])]\<rparr>"

definition event_day2 :: "real frame" where
  "event_day2 = \<lparr>index = [2], cols = [(''X'', [Some 50])]\<rparr>"

definition engine6 :: engine where
  "engine6 = \<lparr>data = panel6, events = event_day2, window = (-1, 1), event_date_index = 0\<rparr>"

definition booted6 :: engine where
  "booted6 =
     \<lparr>data = \<lparr>index = [0, 1, 2, 3, 4, 5, 6, 7, 8, 9, 10, 11],
               cols = [(''X'', [Some 4, Some 5, Some 4, Some 5, Some 4, Some 5,
                                Some 4, Some 5, Some 4, Some 5, Some 4, Some 5])]\<rparr>,
      events = \<lparr>index = [6], cols = [(''X'', [Some 1])]\<rparr>,
      window = (-1, 1), event_date_index = 0\<rparr>"


section \<open>Properties\<close>

subsection \<open>The fills of one column\<close>

lemma length_pad_inplace [simp]: "length (pad_inplace n val k xs) = length xs"
  by (induction n val k xs rule: pad_inplace.induct) auto

lemma pad_inplace_notnull:
  "i < length xs \<Longrightarrow>
   pad_inplace n val k xs ! i \<noteq> None \<longleftrightarrow>
     xs ! i \<noteq> None \<or> (\<exists>j<i. xs ! j \<noteq> None \<and> i \<le> j + n) \<or>
     (val \<noteq> None \<and> k + i < n \<and> (\<forall>j\<le>i. xs ! j = None))"
proof (induction n val k xs arbitrary: i rule: pad_inplace.induct)
  case (1 n val k)
  then show ?case by simp
next
  case (2 n val k xs)
  show ?case
  proof (cases i)
    case 0
    then show ?thesis by auto
  next
    case (Suc i')
    define A where "A \<longleftrightarrow> xs ! i' \<noteq> None"
    define B where "B \<longleftrightarrow> (\<exists>j<i'. xs ! j \<noteq> None \<and> i' \<le> j + n)"
    define C where "C \<longleftrightarrow> (\<forall>j\<le>i'. xs ! j = None)"
    have ex: "(\<exists>j<Suc i'. (None # xs) ! j \<noteq> None \<and> Suc i' \<le> j + n) \<longleftrightarrow> B"
      unfolding B_def by (auto simp: less_Suc_eq_0_disj)
    have al: "(\<forall>j\<le>Suc i'. (None # xs) ! j = None) \<longleftrightarrow> C"
      unfolding C_def
    proof (intro iffI allI impI)
      fix j assume "\<forall>j\<le>Suc i'. (None # xs) ! j = None" "j \<le> i'"
      then have "(None # xs) ! Suc j = None" by (meson Suc_le_mono)
      then show "xs ! j = None" by simp
    next
      fix j assume a: "\<forall>j\<le>i'. xs ! j = None" "j \<le> Suc i'"
      then show "(None # xs) ! j = None" by (cases j) auto
    qed
    have hd: "(None # xs) ! Suc i' \<noteq> None \<longleftrightarrow> A" unfolding A_def by simp
    from 2 Suc have i': "i' < length xs" by simp
    show ?thesis
    proof (cases "n \<le> k")
      case True
      have L: "pad_inplace n val k (None # xs) ! Suc i' = pad_inplace n val k xs ! i'"
        using True by simp
      have IH: "pad_inplace n val k xs ! i' \<noteq> None \<longleftrightarrow> A \<or> B"
        using 2(1)[OF True i'] True unfolding A_def B_def by simp
      have K: "\<not> k + Suc i' < n" using True by simp
      show ?thesis unfolding Suc L ex al hd IH using K by blast
    next
      case False
      have L: "pad_inplace n val k (None # xs) ! Suc i' = pad_inplace n val (k + 1) xs ! i'"
        using False by simp
      have K: "k + Suc i' < n \<longleftrightarrow> k + 1 + i' < n" by simp
      have IH: "pad_inplace n val (k + 1) xs ! i' \<noteq> None \<longleftrightarrow>
                  A \<or> B \<or> (val \<noteq> None \<and> k + 1 + i' < n \<and> C)"
        using 2(2)[OF False i'] unfolding A_def B_def C_def .
      show ?thesis unfolding Suc L ex al hd IH K by blast
    qed
  qed
next
  case (3 n val k v xs)
  show ?case
  proof (cases i)
    case 0
    then show ?thesis by auto
  next
    case (Suc i')
    from 3 Suc have i': "i' < length xs" by simp
    define A where "A \<longleftrightarrow> xs ! i' \<noteq> None"
    define B where "B \<longleftrightarrow> (\<exists>j<i'. xs ! j \<noteq> None \<and> i' \<le> j + n)"
    define C where "C \<longleftrightarrow> (\<forall>j\<le>i'. xs ! j = None)"
    have ex: "(\<exists>j<Suc i'. (Some v # xs) ! j \<noteq> None \<and> Suc i' \<le> j + n) \<longleftrightarrow> i' < n \<or> B"
      unfolding B_def by (auto simp: less_Suc_eq_0_disj)
    have nz: "(\<forall>j\<le>Suc i'. (Some v # xs) ! j = None) \<longleftrightarrow> False"
      by (auto intro: exI[of _ 0])
    have hd: "(Some v # xs) ! Suc i' \<noteq> None \<longleftrightarrow> A" unfolding A_def by simp
    have key: "i' < n \<Longrightarrow> A \<or> B \<or> C"
    proof -
      assume n: "i' < n"
      show ?thesis
      proof (cases C)
        case True
        then show ?thesis by blast
      next
        case False
        then obtain j where j: "j \<le> i'" "xs ! j \<noteq> None" unfolding C_def by blast
        show ?thesis
        proof (cases "j = i'")
          case True
          with j show ?thesis unfolding A_def by blast
        next
          case False
          with j have "j < i'" by simp
          moreover have "i' \<le> j + n" using n by simp
          ultimately show ?thesis using j unfolding B_def by blast
        qed
      qed
    qed
    have L: "pad_inplace n val k (Some v # xs) ! Suc i' = pad_inplace n (Some v) 0 xs ! i'"
      by simp
    have IH: "pad_inplace n (Some v) 0 xs ! i' \<noteq> None \<longleftrightarrow> A \<or> B \<or> (i' < n \<and> C)"
      using 3(1)[OF i'] unfolding A_def B_def C_def by simp
    show ?thesis unfolding Suc L ex nz hd IH using key by blast
  qed
qed

lemma ffill_col_notnull:
  "i < length xs \<Longrightarrow>
   ffill_col n xs ! i \<noteq> None \<longleftrightarrow> xs ! i \<noteq> None \<or> (\<exists>j<i. xs ! j \<noteq> None \<and> i \<le> j + n)"
  using pad_inplace_notnull[of i xs n None 0] by (simp add: ffill_col_def)

lemma bfill_col_notnull:
  assumes "i < length xs"
  shows "bfill_col n xs ! i \<noteq> None \<longleftrightarrow>
         xs ! i \<noteq> None \<or> (\<exists>j. i < j \<and> j < length xs \<and> xs ! j \<noteq> None \<and> j \<le> i + n)"
proof -
  let ?L = "length xs"
  have r: "?L - Suc i < length (rev xs)" using assms by simp
  have "bfill_col n xs ! i = pad_inplace n None 0 (rev xs) ! (?L - Suc i)"
    using assms by (simp add: bfill_col_def rev_nth)
  also have "\<dots> \<noteq> None \<longleftrightarrow> rev xs ! (?L - Suc i) \<noteq> None \<or>
       (\<exists>j<?L - Suc i. rev xs ! j \<noteq> None \<and> ?L - Suc i \<le> j + n)"
    using pad_inplace_notnull[OF r, of n None 0] by simp
  also have "rev xs ! (?L - Suc i) = xs ! i" using assms by (simp add: rev_nth)
  also have "(\<exists>j<?L - Suc i. rev xs ! j \<noteq> None \<and> ?L - Suc i \<le> j + n) \<longleftrightarrow>
             (\<exists>j. i < j \<and> j < ?L \<and> xs ! j \<noteq> None \<and> j \<le> i + n)" (is "?A \<longleftrightarrow> ?B")
  proof
    assume ?A
    then obtain j where j: "j < ?L - Suc i" "rev xs ! j \<noteq> None" "?L - Suc i \<le> j + n" by blast
    then have "xs ! (?L - Suc j) \<noteq> None" using assms by (simp add: rev_nth)
    moreover have "i < ?L - Suc j" "?L - Suc j < ?L" "?L - Suc j \<le> i + n" using j assms by linarith+
    ultimately show ?B by blast
  next
    assume ?B
    then obtain j where j: "i < j" "j < ?L" "xs ! j \<noteq> None" "j \<le> i + n" by blast
    then have "rev xs ! (?L - Suc j) \<noteq> None" by (simp add: rev_nth)
    moreover have "?L - Suc j < ?L - Suc i" "?L - Suc i \<le> (?L - Suc j) + n" using j by linarith+
    ultimately show ?A by blast
  qed
  finally show ?thesis .
qed

lemma length_ffill_col [simp]: "length (ffill_col n xs) = length xs"
  by (simp add: ffill_col_def)

lemma length_bfill_col [simp]: "length (bfill_col n xs) = length xs"
  by (simp add: bfill_col_def)

subsection \<open>The mask, slot by slot\<close>

lemma cols_events_reidx:
  "cols (events_reidx e) = map (\<lambda>c. (c, marker e c)) (columns (data e))"
  by (simp add: events_reidx_def map_cells_def reindex_like_def marker_def comp_def)

lemma index_events_reidx: "index (events_reidx e) = index (data e)"
  by (simp add: events_reidx_def map_cells_def reindex_like_def)

lemma pad_inplace_noop: "None \<notin> set xs \<Longrightarrow> pad_inplace n v k xs = xs"
  by (induction n v k xs rule: pad_inplace.induct) auto

lemma ffill_col_noop: "None \<notin> set xs \<Longrightarrow> ffill_col n xs = xs"
  by (simp add: ffill_col_def pad_inplace_noop)

lemma bfill_col_noop: "None \<notin> set xs \<Longrightarrow> bfill_col n xs = xs"
  by (simp add: bfill_col_def pad_inplace_noop)

lemma map_columns_noop:
  assumes "\<not> holds_na df" "\<And>xs. None \<notin> set xs \<Longrightarrow> f xs = xs"
  shows "map_columns f df = df"
proof -
  have "\<forall>c\<in>set (cols df). None \<notin> set (snd c)"
    using assms(1) by (auto simp: holds_na_def list_ex_iff)
  then have "map (\<lambda>(c, xs). (c, f xs)) (cols df) = cols df"
    by (intro map_idI) (auto simp: assms(2))
  then show ?thesis by (simp add: map_columns_def)
qed

lemma fill_frame_Inr:
  assumes "fill_frame f na l df = Inr r" "\<not> na \<Longrightarrow> \<not> holds_na df"
    "\<And>n xs. None \<notin> set xs \<Longrightarrow> f n xs = xs"
  shows "r = map_columns (f (nat l)) df \<and> (na \<longrightarrow> 1 \<le> l)"
proof (cases na)
  case True
  with assms(1) show ?thesis
    by (auto simp: fill_frame_def validate_limit_def split: if_splits)
next
  case False
  with assms(1) have "r = df" by (simp add: fill_frame_def)
  moreover have "map_columns (f (nat l)) df = df"
    using map_columns_noop[of df "f (nat l)"] assms(2,3) False by simp
  ultimately show ?thesis using False by simp
qed

lemma holds_na_map_columns_bfill:
  "\<not> holds_na df \<Longrightarrow> \<not> holds_na (map_columns (bfill_col n) df)"
  using map_columns_noop[of df "bfill_col n"] by (simp add: bfill_col_noop)

lemma zip_map_same: "zip (map f xs) (map g xs) = map (\<lambda>x. (f x, g x)) xs"
  by (induction xs) auto

lemma mark_event_windows_Inr:
  assumes "mark_event_windows e x = Inr m"
  shows "m = \<lparr>b_index = index (data e),
              b_cols = map (\<lambda>c. (c, mew_col (nat (- fst (window e)))
                                      (nat (snd (window e) - event_date_index e)) x (marker e c)))
                         (columns (data e))\<rparr>"
    and "holds_na (events_reidx e) \<Longrightarrow> fst (window e) < 0 \<and> 0 < snd (window e) - event_date_index e"
proof -
  obtain w_s w_e0 where w: "window e = (w_s, w_e0)" by (cases "window e")
  define w_e where "w_e = w_e0 - event_date_index e"
  define er where "er = events_reidx e"
  define na where "na = holds_na er"
  from assms obtain mc b bf where
    mc: "mask_confusing e = Inr mc" and b: "bfill na (- w_s) er = Inr b"
    and bf: "ffill na w_e b = Inr bf"
    and m: "m = (if x then bzip (\<lambda>r m. if m then False else r) (to_bool notnull bf) mc
                 else to_bool notnull bf)"
    by (auto simp: mark_event_windows_def w w_e_def er_def na_def Let_def split: sum.splits)
  from mc b obtain f where f: "ffill na w_e er = Inr f"
    and mc': "mc = bzip (\<and>) (bzip (\<and>) (to_bool fillna_False b) (to_bool fillna_False f))
                  (to_bool (\<lambda>x. x = None) er)"
    by (auto simp: mask_confusing_def w w_e_def er_def na_def Let_def split: sum.splits)
  have B: "b = map_columns (bfill_col (nat (- w_s))) er" "na \<longrightarrow> 1 \<le> - w_s"
    using fill_frame_Inr[OF b[unfolded bfill_def], of ] bfill_col_noop by (auto simp: na_def)
  have F: "f = map_columns (ffill_col (nat w_e)) er" "na \<longrightarrow> 1 \<le> w_e"
    using fill_frame_Inr[OF f[unfolded ffill_def]] ffill_col_noop by (auto simp: na_def)
  have "\<not> na \<Longrightarrow> \<not> holds_na b"
    unfolding B na_def by (rule holds_na_map_columns_bfill)
  then have BF: "bf = map_columns (ffill_col (nat w_e)) b"
    using fill_frame_Inr[OF bf[unfolded ffill_def]] ffill_col_noop by auto
  show "holds_na (events_reidx e) \<Longrightarrow> fst (window e) < 0 \<and> 0 < snd (window e) - event_date_index e"
    using B(2) F(2) by (simp add: na_def er_def w w_e_def)
  have cer: "cols er = map (\<lambda>c. (c, marker e c)) (columns (data e))" "index er = index (data e)"
    by (simp_all add: er_def cols_events_reidx index_events_reidx)
  show "m = \<lparr>b_index = index (data e),
              b_cols = map (\<lambda>c. (c, mew_col (nat (- fst (window e)))
                                      (nat (snd (window e) - event_date_index e)) x (marker e c)))
                         (columns (data e))\<rparr>"
    unfolding m mc' BF B F
    by (simp add: bzip_def to_bool_def map_columns_def cer zip_map_same comp_def mew_col_def w w_e_def)
qed


lemma mark_event_windows_returns:
  assumes "fst (window e) < 0" "0 < snd (window e) - event_date_index e"
  shows "\<exists>m. mark_event_windows e x = Inr m"
proof -
  obtain w_s w_e0 where w: "window e = (w_s, w_e0)" by (cases "window e")
  have v: "validate_limit (- w_s) = Inr (nat (- w_s))"
    "validate_limit (w_e0 - event_date_index e) = Inr (nat (w_e0 - event_date_index e))"
    using assms w by (simp_all add: validate_limit_def)
  show ?thesis
    by (simp add: mark_event_windows_def mask_confusing_def w Let_def bfill_def ffill_def
        fill_frame_def v)
qed

lemma mark_event_windows_raises:
  assumes "holds_na (events_reidx e)"
    "\<not> (fst (window e) < 0 \<and> 0 < snd (window e) - event_date_index e)"
  shows "mark_event_windows e x = Inl ValueError"
proof -
  obtain w_s w_e0 where w: "window e = (w_s, w_e0)" by (cases "window e")
  show ?thesis using assms
    by (auto simp: mark_event_windows_def mask_confusing_def w Let_def bfill_def ffill_def
        fill_frame_def validate_limit_def)
qed

lemma length_marker: "length (marker e c) = len (data e)"
  by (simp add: marker_def len_def)

lemma marker_nth: "i < len (data e) \<Longrightarrow> marker e c ! i \<noteq> None \<longleftrightarrow> event_at e c i"
  by (auto simp: marker_def len_def event_at_def)

lemma marker_vals: "set (marker e c) \<subseteq> {None, Some True}"
  by (auto simp: marker_def)

lemma pad_inplace_set: "set (pad_inplace n v k xs) \<subseteq> insert None (insert v (set xs))"
  by (induction n v k xs rule: pad_inplace.induct) auto

lemma ffill_col_vals:
  assumes "set xs \<subseteq> {None, Some True}" "i < length xs"
  shows "fillna_False (ffill_col n xs ! i) \<longleftrightarrow> ffill_col n xs ! i \<noteq> None"
proof -
  have "ffill_col n xs ! i \<in> set (ffill_col n xs)" using assms(2) by simp
  then have "ffill_col n xs ! i \<in> {None, Some True}"
    using pad_inplace_set[of n None 0 xs] assms(1) by (auto simp: ffill_col_def)
  then show ?thesis by (auto simp: fillna_False_def)
qed

lemma bfill_col_vals:
  assumes "set xs \<subseteq> {None, Some True}" "i < length xs"
  shows "fillna_False (bfill_col n xs ! i) \<longleftrightarrow> bfill_col n xs ! i \<noteq> None"
proof -
  have "bfill_col n xs ! i \<in> set (bfill_col n xs)" using assms(2) by simp
  then have "bfill_col n xs ! i \<in> {None, Some True}"
    using pad_inplace_set[of n None 0 "rev xs"] assms(1) by (auto simp: bfill_col_def)
  then show ?thesis by (auto simp: fillna_False_def)
qed

lemma ffill_bfill_notnull:
  assumes i: "i < length xs"
  shows "ffill_col n2 (bfill_col n1 xs) ! i \<noteq> None \<longleftrightarrow>
         xs ! i \<noteq> None \<or>
         (\<exists>j. i < j \<and> j < length xs \<and> xs ! j \<noteq> None \<and> j \<le> i + n1) \<or>
         (\<exists>j<i. xs ! j \<noteq> None \<and> i \<le> j + n2)" (is "?L \<longleftrightarrow> ?E \<or> ?B \<or> ?A")
proof
  let ?ys = "bfill_col n1 xs"
  have yi: "?ys ! i \<noteq> None \<longleftrightarrow> ?E \<or> ?B" using bfill_col_notnull[OF i] .
  have L: "?L \<longleftrightarrow> ?ys ! i \<noteq> None \<or> (\<exists>j<i. ?ys ! j \<noteq> None \<and> i \<le> j + n2)"
    using ffill_col_notnull[of i ?ys n2] i by simp
  {
    assume ?L
    with L consider "?ys ! i \<noteq> None" | j where "j < i" "?ys ! j \<noteq> None" "i \<le> j + n2" by blast
    then show "?E \<or> ?B \<or> ?A"
    proof cases
      case 1
      with yi show ?thesis by blast
    next
      case 2
      from 2(1) i have jl: "j < length xs" by simp
      from bfill_col_notnull[OF jl, of n1] 2(2)
      consider "xs ! j \<noteq> None" | k where "j < k" "k < length xs" "xs ! k \<noteq> None" "k \<le> j + n1"
        by blast
      then show ?thesis
      proof cases
        case 1
        with 2 show ?thesis by blast
      next
        case 2
        note k = 2
        consider "k < i" | "k = i" | "i < k" by linarith
        then show ?thesis
        proof cases
          case 1
          moreover have "i \<le> k + n2" using \<open>i \<le> j + n2\<close> k(1) by linarith
          ultimately show ?thesis using k(3) by blast
        next
          case 2
          with k(3) show ?thesis by blast
        next
          case 3
          moreover have "k \<le> i + n1" using k(4) \<open>j < i\<close> by linarith
          ultimately show ?thesis using k(2,3) by blast
        qed
      qed
    qed
  }
  {
    assume "?E \<or> ?B \<or> ?A"
    then consider "?E \<or> ?B" | ?A by blast
    then show ?L
    proof cases
      case 1
      with yi L show ?thesis by blast
    next
      case 2
      then obtain j where j: "j < i" "xs ! j \<noteq> None" "i \<le> j + n2" by blast
      from j(1) i have jl: "j < length xs" by simp
      from bfill_col_notnull[OF jl, of n1] j(2) have "?ys ! j \<noteq> None" by blast
      with j L show ?thesis by blast
    qed
  }
qed

lemma mew_col_nth:
  fixes n1 n2 :: nat and excl :: bool and xs :: "bool option list" and i :: nat
  assumes i: "i < length xs" and v: "set xs \<subseteq> {None, Some True}"
  defines "E \<equiv> xs ! i \<noteq> None"
    and "B \<equiv> (\<exists>j. i < j \<and> j < length xs \<and> xs ! j \<noteq> None \<and> j \<le> i + n1)"
    and "A \<equiv> (\<exists>j<i. xs ! j \<noteq> None \<and> i \<le> j + n2)"
  shows "mew_col n1 n2 excl xs ! i \<longleftrightarrow> (E \<or> B \<or> A) \<and> \<not> (excl \<and> B \<and> A \<and> \<not> E)"
proof -
  have R: "notnull (ffill_col n2 (bfill_col n1 xs) ! i) \<longleftrightarrow> E \<or> B \<or> A"
    unfolding notnull_def E_def B_def A_def by (rule ffill_bfill_notnull[OF i])
  have Bf: "fillna_False (bfill_col n1 xs ! i) \<longleftrightarrow> E \<or> B"
    using bfill_col_vals[OF v i] bfill_col_notnull[OF i] unfolding E_def B_def by blast
  have Ff: "fillna_False (ffill_col n2 xs ! i) \<longleftrightarrow> E \<or> A"
    using ffill_col_vals[OF v i] ffill_col_notnull[OF i] unfolding E_def A_def by blast
  have N: "(xs ! i = None) \<longleftrightarrow> \<not> E" unfolding E_def by simp
  show ?thesis
  proof (cases excl)
    case True
    have "mew_col n1 n2 excl xs ! i \<longleftrightarrow>
          (if (fillna_False (bfill_col n1 xs ! i) \<and> fillna_False (ffill_col n2 xs ! i)) \<and> xs ! i = None
           then False else notnull (ffill_col n2 (bfill_col n1 xs) ! i))"
      using True i by (simp add: mew_col_def)
    then show ?thesis unfolding R Bf Ff N using True by auto
  next
    case False
    then have "mew_col n1 n2 excl xs ! i \<longleftrightarrow> notnull (ffill_col n2 (bfill_col n1 xs) ! i)"
      using i by (simp add: mew_col_def)
    then show ?thesis unfolding R using False by simp
  qed
qed

lemma length_mew_col: "length (mew_col n1 n2 excl xs) = length xs"
  by (simp add: mew_col_def)

lemma map_of_map_key: "c \<in> set cs \<Longrightarrow> map_of (map (\<lambda>c. (c, f c)) cs) c = Some (f c)"
  by (induction cs) auto

lemma mask_at_iff:
  assumes m: "mark_event_windows e excl = Inr m"
    and c: "c \<in> set (columns (data e))" and i: "i < len (data e)"
  shows "mask_at m c i \<longleftrightarrow>
         (event_at e c i \<or> before_event e c i \<or> after_event e c i) \<and>
         \<not> (excl \<and> before_event e c i \<and> after_event e c i \<and> \<not> event_at e c i)"
proof -
  let ?n1 = "nat (- fst (window e))" and ?n2 = "nat (snd (window e) - event_date_index e)"
  let ?xs = "marker e c"
  have "bcol m c = mew_col ?n1 ?n2 excl ?xs"
    unfolding mark_event_windows_Inr(1)[OF m] bcol_def
    using map_of_map_key[OF c, of "\<lambda>c. mew_col ?n1 ?n2 excl (marker e c)"] by simp
  then have M: "mask_at m c i \<longleftrightarrow> mew_col ?n1 ?n2 excl ?xs ! i" by (simp add: mask_at_def)
  have il: "i < length ?xs" using i by (simp add: length_marker)
  have E: "?xs ! i \<noteq> None \<longleftrightarrow> event_at e c i" using marker_nth[OF i] .
  have B: "(\<exists>j. i < j \<and> j < length ?xs \<and> ?xs ! j \<noteq> None \<and> j \<le> i + ?n1) \<longleftrightarrow> before_event e c i"
  proof -
    have ar: "j \<le> i + ?n1 \<longleftrightarrow> int j \<le> int i - fst (window e)" if "i < j" for j
      using that by linarith
    have "(i < j \<and> j < length ?xs \<and> ?xs ! j \<noteq> None \<and> j \<le> i + ?n1) \<longleftrightarrow>
          (i < j \<and> j < len (data e) \<and> event_at e c j \<and> int j \<le> int i - fst (window e))" for j
      using ar[of j] marker_nth[of j e c] by (auto simp: length_marker)
    then show ?thesis unfolding before_event_def by simp
  qed
  have A: "(\<exists>j<i. ?xs ! j \<noteq> None \<and> i \<le> j + ?n2) \<longleftrightarrow> after_event e c i"
  proof -
    have ar: "i \<le> j + ?n2 \<longleftrightarrow> int i \<le> int j + (snd (window e) - event_date_index e)"
      if "j < i" for j
      using that by linarith
    have "(j < i \<and> ?xs ! j \<noteq> None \<and> i \<le> j + ?n2) \<longleftrightarrow>
          (j < i \<and> event_at e c j \<and> int i \<le> int j + (snd (window e) - event_date_index e))" for j
      using ar[of j] marker_nth[of j e c] i by (cases "j < i") auto
    then show ?thesis unfolding after_event_def by simp
  qed
  show ?thesis unfolding M mew_col_nth[OF il marker_vals] E B A ..
qed

subsection \<open>The window marker on the examples\<close>

lemmas ex_defs = panel10_def event_day5_def engine5_def engine5_post_def events_3_6_def
  engine36_def engine5_from0_def

lemmas mew_defs = mark_event_windows_def mask_confusing_def events_reidx_def reindex_like_def
  map_cells_def columns_def cell_def notnull_def holds_na_def bfill_def ffill_def fill_frame_def
  validate_limit_def map_columns_def bfill_col_def ffill_col_def to_bool_def bzip_def
  fillna_False_def

lemma init_engine5:
  "init (DataFrame panel10) (DataFrame event_day5) (-2, 2) 0 = Inr engine5"
  by (simp add: init_def ex_defs pd_index_def pd_dropna_index_def dropna_all_index_def
      row_all_null_def index_union_def align_inner_def select_columns_def columns_def col_def)

lemma mew_engine5:
  "mark_event_windows engine5 True =
     Inr \<lparr>b_index = [1, 2, 3, 4, 5, 6, 7, 8, 9, 10],
          b_cols = [(''X'', [False, False, True, True, True, True, True, False, False, False])]\<rparr>"
  by (simp add: ex_defs mew_defs)

lemma mew_engine5_post:
  "mark_event_windows engine5_post True =
     Inr \<lparr>b_index = [1, 2, 3, 4, 5, 6, 7, 8, 9, 10],
          b_cols = [(''X'', [False, False, True, True, True, True, False, False, False, False])]\<rparr>"
  by (simp add: ex_defs mew_defs)

lemma mew_engine36:
  "mark_event_windows engine36 True =
     Inr \<lparr>b_index = [1, 2, 3, 4, 5, 6, 7, 8, 9, 10],
          b_cols = [(''X'', [True, True, True, False, False, True, True, True, False, False])]\<rparr>"
  by (simp add: ex_defs mew_defs)

lemma mew_engine5_from0:
  "mark_event_windows engine5_from0 True = Inl ValueError"
  by (simp add: ex_defs mew_defs)

subsection \<open>Construction\<close>





lemma init_columns:
  "init data0 events0 window0 edi = Inr e \<Longrightarrow> columns (events e) = columns (data e)"
  by (auto simp: init_def align_inner_def select_columns_def columns_def comp_def Let_def
      split: if_splits pd_obj.splits prod.splits)

subsection \<open>The window marker\<close>

text \<open>
  C2. A slot that lies within \<open>-start\<close> periods before one event and within
  \<open>end - event_date_index\<close> periods after another, and is no event itself, is false in
  the mask that \<open>mark_event_windows\<close> returns with ambiguity exclusion.
\<close>

theorem ambiguous_slot_excluded:
  assumes "c \<in> set (columns (data e))" "i < len (data e)"
    "before_event e c i" "after_event e c i" "\<not> event_at e c i"
  shows "\<exists>m. mark_event_windows e True = Inr m \<and> \<not> mask_at m c i"
proof -
  from assms(3) have "fst (window e) < 0" unfolding before_event_def by auto
  moreover from assms(4) have "0 < snd (window e) - event_date_index e"
    unfolding after_event_def by auto
  ultimately obtain m where m: "mark_event_windows e True = Inr m"
    using mark_event_windows_returns by blast
  from mask_at_iff[OF m assms(1,2)] assms(3,4,5) have "\<not> mask_at m c i" by simp
  with m show ?thesis by blast
qed

lemmas cell_defs = event_at_def cell_def notnull_def len_def columns_def

theorem ambiguous_slot_excluded_witness:
  "\<exists>m. mark_event_windows engine36 True = Inr m \<and> \<not> mask_at m ''X'' 3"
proof -
  have c: "''X'' \<in> set (columns (data engine36))" by (simp add: ex_defs columns_def)
  have i: "3 < len (data engine36)" by (simp add: ex_defs len_def)
  have b: "before_event engine36 ''X'' 3"
    unfolding before_event_def by (rule exI[of _ 5]) (simp add: ex_defs cell_defs)
  have a: "after_event engine36 ''X'' 3"
    unfolding after_event_def by (rule exI[of _ 2]) (simp add: ex_defs cell_defs)
  have n: "\<not> event_at engine36 ''X'' 3" by (simp add: ex_defs cell_defs)
  show ?thesis using ambiguous_slot_excluded[OF c i b a n] .
qed

text \<open>
  C9. Whatever the ambiguity flag, the mask that \<open>mark_event_windows\<close> returns is true
  at every slot that is an event timestamp of its asset.
\<close>

theorem event_slot_marked:
  assumes "mark_event_windows e excl_ambig = Inr m"
    "fst (window e) \<le> 0" "0 \<le> snd (window e) - event_date_index e"
    "c \<in> set (columns (data e))" "i < len (data e)" "event_at e c i"
  shows "mask_at m c i"
  using mask_at_iff[OF assms(1,4,5)] assms(6) by simp

theorem event_slot_marked_witness:
  "mask_at \<lparr>b_index = [1, 2, 3, 4, 5, 6, 7, 8, 9, 10],
            b_cols = [(''X'', [True, True, True, False, False, True, True, True, False, False])]\<rparr>
     ''X'' 5"
proof -
  have w: "fst (window engine36) \<le> 0" "0 \<le> snd (window engine36) - event_date_index engine36"
    by (simp_all add: ex_defs)
  have c: "''X'' \<in> set (columns (data engine36))" by (simp add: ex_defs columns_def)
  have i: "5 < len (data engine36)" by (simp add: ex_defs len_def)
  have ev: "event_at engine36 ''X'' 5" by (simp add: ex_defs cell_defs)
  show ?thesis using event_slot_marked[OF mew_engine36 w c i ev] .
qed

lemma bcol_length:
  assumes "mark_event_windows e excl = Inr m" "c \<in> set (columns (data e))"
  shows "length (bcol m c) = len (data e)"
proof -
  let ?f = "\<lambda>c. mew_col (nat (- fst (window e))) (nat (snd (window e) - event_date_index e))
             excl (marker e c)"
  have "bcol m c = ?f c"
    unfolding mark_event_windows_Inr(1)[OF assms(1)] bcol_def
    using map_of_map_key[OF assms(2), of ?f] by simp
  then show ?thesis by (simp add: length_mew_col length_marker)
qed

lemma count_true_card: "length (filter id xs) = card {i. i < length xs \<and> xs ! i}"
  by (simp add: length_filter_conv_card)

lemma card_int_range:
  fixes a b :: int and n :: nat
  shows "card {i. i < n \<and> a \<le> int i \<and> int i \<le> b} \<le> nat (b - a + 1)"
    and "0 \<le> a \<Longrightarrow> b < int n \<Longrightarrow> card {i. i < n \<and> a \<le> int i \<and> int i \<le> b} = nat (b - a + 1)"
proof -
  let ?S = "{i. i < n \<and> a \<le> int i \<and> int i \<le> b}"
  have fin: "finite ?S" by simp
  have "int ` ?S \<subseteq> {a..b}" by auto
  then have "card (int ` ?S) \<le> card {a..b}" by (intro card_mono) auto
  moreover have "card (int ` ?S) = card ?S" by (intro card_image) (simp add: inj_on_def)
  ultimately show "card ?S \<le> nat (b - a + 1)" by simp
  assume ab: "0 \<le> a" "b < int n"
  have "int ` ?S = {a..b}"
  proof
    show "int ` ?S \<subseteq> {a..b}" by auto
    show "{a..b} \<subseteq> int ` ?S"
    proof
      fix x assume x: "x \<in> {a..b}"
      then have "nat x \<in> ?S" using ab by auto
      moreover have "int (nat x) = x" using x ab by auto
      ultimately show "x \<in> int ` ?S" by (metis imageI)
    qed
  qed
  then have "card (int ` ?S) = nat (b - a + 1)" by simp
  with \<open>card (int ` ?S) = card ?S\<close> show "card ?S = nat (b - a + 1)" by simp
qed

text \<open>
  C3 (amended). With \<open>start < 0 < end - event_date_index\<close> and a single event of asset
  \<open>c\<close>, at row \<open>p\<close>: \<open>mark_event_windows\<close> returns, with and without ambiguity
  exclusion, the same column for \<open>c\<close>; it is true exactly at the rows from
  \<open>p + start\<close> to \<open>p + end - event_date_index\<close> that the calendar has. These are
  \<open>end - event_date_index - start + 1\<close> rows when the calendar has them all, and fewer
  otherwise.
\<close>

theorem single_event_window:
  assumes "fst (window e) < 0" "0 < snd (window e) - event_date_index e"
    and "c \<in> set (columns (data e))" "p < len (data e)"
    and "event_at e c p" "\<forall>j<len (data e). event_at e c j \<longrightarrow> j = p"
  shows "\<exists>m m'. mark_event_windows e True = Inr m \<and> mark_event_windows e False = Inr m' \<and>
           bcol m c = bcol m' c \<and>
           (\<forall>i<len (data e). mask_at m c i \<longleftrightarrow>
              int p + fst (window e) \<le> int i \<and>
              int i \<le> int p + (snd (window e) - event_date_index e)) \<and>
           length (filter id (bcol m c))
             \<le> nat (snd (window e) - event_date_index e - fst (window e) + 1) \<and>
           (0 \<le> int p + fst (window e) \<and>
            int p + (snd (window e) - event_date_index e) < int (len (data e)) \<longrightarrow>
              length (filter id (bcol m c))
                = nat (snd (window e) - event_date_index e - fst (window e) + 1))"
proof -
  let ?s = "fst (window e)" and ?e = "snd (window e) - event_date_index e"
  let ?n = "len (data e)"
  obtain m where m: "mark_event_windows e True = Inr m"
    using mark_event_windows_returns[OF assms(1,2)] by blast
  obtain m' where m': "mark_event_windows e False = Inr m'"
    using mark_event_windows_returns[OF assms(1,2)] by blast
  have ev: "event_at e c j \<longleftrightarrow> j = p" if "j < ?n" for j
    using assms(5,6) that by blast
  have bef: "before_event e c i \<longleftrightarrow> i < p \<and> int p \<le> int i - ?s" for i
    unfolding before_event_def using ev assms(4) by auto
  have aft: "after_event e c i \<longleftrightarrow> p < i \<and> int i \<le> int p + ?e" if "i < ?n" for i
  proof -
    have "j < i \<Longrightarrow> event_at e c j \<longleftrightarrow> j = p" for j using ev[of j] that by simp
    then show ?thesis unfolding after_event_def by auto
  qed
  have at: "mask_at mm c i \<longleftrightarrow> int p + ?s \<le> int i \<and> int i \<le> int p + ?e"
    if "mark_event_windows e x = Inr mm" "i < ?n" for mm x i
    unfolding mask_at_iff[OF that(1) assms(3) that(2)] bef aft[OF that(2)] ev[OF that(2)]
    using assms(1,2) by auto
  have len: "length (bcol m c) = ?n" "length (bcol m' c) = ?n"
    using bcol_length[OF m assms(3)] bcol_length[OF m' assms(3)] by simp_all
  have eq: "bcol m c = bcol m' c"
  proof (rule nth_equalityI)
    show "length (bcol m c) = length (bcol m' c)" using len by simp
    fix i assume "i < length (bcol m c)"
    then have i: "i < ?n" using len by simp
    show "bcol m c ! i = bcol m' c ! i"
      using at[OF m i] at[OF m' i] by (simp add: mask_at_def)
  qed
  have set_eq: "{i. i < length (bcol m c) \<and> bcol m c ! i}
                = {i. i < ?n \<and> int p + ?s \<le> int i \<and> int i \<le> int p + ?e}"
    using at[OF m] len by (auto simp: mask_at_def)
  have cnt: "length (filter id (bcol m c))
             = card {i. i < ?n \<and> int p + ?s \<le> int i \<and> int i \<le> int p + ?e}"
    unfolding count_true_card set_eq ..
  have ar: "int p + ?e - (int p + ?s) + 1 = ?e - ?s + 1" by simp
  have c1: "length (filter id (bcol m c)) \<le> nat (?e - ?s + 1)"
    unfolding cnt using card_int_range(1)[of ?n "int p + ?s" "int p + ?e"] ar by simp
  have c2: "length (filter id (bcol m c)) = nat (?e - ?s + 1)"
    if "0 \<le> int p + ?s" "int p + ?e < int ?n"
    unfolding cnt using card_int_range(2)[OF that] ar by simp
  show ?thesis
    using m m' eq at[OF m] c1 c2 by blast
qed

lemma all_less_list_all: "(\<forall>j<n. P j) \<longleftrightarrow> list_all P [0..<n]"
  by (auto simp: list_all_iff)

theorem single_event_window_witness:
  "\<exists>m m'. mark_event_windows engine5 True = Inr m \<and> mark_event_windows engine5 False = Inr m' \<and>
     bcol m ''X'' = bcol m' ''X'' \<and>
     (\<forall>i<10. mask_at m ''X'' i \<longleftrightarrow> 2 \<le> int i \<and> int i \<le> 6) \<and>
     length (filter id (bcol m ''X'')) = 5"
proof -
  have w: "fst (window engine5) < 0" "0 < snd (window engine5) - event_date_index engine5"
    by (simp_all add: ex_defs)
  have c: "''X'' \<in> set (columns (data engine5))" by (simp add: ex_defs columns_def)
  have p: "4 < len (data engine5)" by (simp add: ex_defs len_def)
  have ev: "event_at engine5 ''X'' 4" by (simp add: ex_defs cell_defs)
  have l: "len (data engine5) = 10" by (simp add: ex_defs len_def)
  have one: "\<forall>j<len (data engine5). event_at engine5 ''X'' j \<longrightarrow> j = 4"
    unfolding l all_less_list_all by (simp add: ex_defs cell_defs upt_rec)
  have wv: "fst (window engine5) = - 2" "snd (window engine5) - event_date_index engine5 = 2"
    by (simp_all add: ex_defs)
  show ?thesis
    using single_event_window[OF w c p ev one] unfolding l wv by (simp; blast)
qed

text \<open>
  C3, against the count \<open>end - start + 1\<close> of the specification: with
  \<open>event_date_index = 1\<close> the event of day 5 with window \<open>(-2, 2)\<close> marks the four
  days 3 to 6, none of them cut off by the calendar.
\<close>

theorem single_event_window_counterexample:
  "init (DataFrame panel10) (DataFrame event_day5) (-2, 2) 1 = Inr engine5_post \<and>
   mark_event_windows engine5_post True =
     Inr \<lparr>b_index = [1, 2, 3, 4, 5, 6, 7, 8, 9, 10],
          b_cols = [(''X'', [False, False, True, True, True, True, False, False, False, False])]\<rparr> \<and>
   length (filter id [False, False, True, True, True, True, False, False, False, False])
     \<noteq> nat (snd (window engine5_post) - fst (window engine5_post) + 1)"
  by (simp add: init_def ex_defs pd_index_def pd_dropna_index_def dropna_all_index_def
      row_all_null_def index_union_def align_inner_def select_columns_def col_def mew_defs)

text \<open>
  With \<open>start < 0 < end - event_date_index\<close>, \<open>mark_event_windows\<close> returns a mask with
  the rows and the columns of the panel.
\<close>

lemma mark_event_windows_shape:
  assumes "fst (window e) < 0" "0 < snd (window e) - event_date_index e"
  shows "\<exists>m. mark_event_windows e excl_ambig = Inr m \<and>
           b_index m = index (data e) \<and> map fst (b_cols m) = columns (data e) \<and>
           list_all (\<lambda>c. length (snd c) = len (data e)) (b_cols m)"
proof -
  obtain m where m: "mark_event_windows e excl_ambig = Inr m"
    using mark_event_windows_returns[OF assms] by blast
  show ?thesis
    unfolding m using mark_event_windows_Inr(1)[OF m]
    by (simp add: comp_def list_all_iff length_mew_col length_marker)
qed

text \<open>
  C8. \<open>mark_event_windows\<close> does not complete for every window of signed integers. On
  the engine that construction returns for the panel of ten days, the event of day 5 and
  the window \<open>(0, 2)\<close>, it ends in the \<open>ValueError\<close> of the limit check of the fill, with
  and without ambiguity exclusion; so it does with the windows \<open>(1, 2)\<close> and
  \<open>(-2, -1)\<close>. The docstring promises a boolean frame of the shape of the data.
\<close>

theorem mark_event_windows_raises_on_window:
  "init (DataFrame panel10) (DataFrame event_day5) (0, 2) 0 = Inr engine5_from0 \<and>
   mark_event_windows engine5_from0 True = Inl ValueError \<and>
   mark_event_windows engine5_from0 False = Inl ValueError \<and>
   mark_event_windows (engine5_from0\<lparr>window := (1, 2)\<rparr>) True = Inl ValueError \<and>
   mark_event_windows (engine5_from0\<lparr>window := (-2, -1)\<rparr>) True = Inl ValueError"
  by (simp add: init_def ex_defs pd_index_def pd_dropna_index_def dropna_all_index_def
      row_all_null_def index_union_def align_inner_def select_columns_def col_def mew_defs)

text \<open>
  C10. Two engines with the same calendar, the same assets, the same window and
  \<open>event_date_index\<close>, and events at the same timestamps of the calendar for every asset,
  get the same result from \<open>mark_event_windows\<close>, whatever the values of their panels
  and events.
\<close>

theorem mask_depends_on_positions_only:
  assumes "index (data e1) = index (data e2)" "columns (data e1) = columns (data e2)"
    "window e1 = window e2" "event_date_index e1 = event_date_index e2"
    "\<forall>c\<in>set (columns (data e1)). \<forall>t\<in>set (index (data e1)).
       notnull (cell (events e1) c t) = notnull (cell (events e2) c t)"
  shows "mark_event_windows e1 excl_ambig = mark_event_windows e2 excl_ambig"
proof -
  have "marker e1 c = marker e2 c" if "c \<in> set (columns (data e1))" for c
    unfolding marker_def using assms(1,5) that by auto
  then have "cols (events_reidx e1) = cols (events_reidx e2)"
    unfolding cols_events_reidx using assms(2) by auto
  moreover have "index (events_reidx e1) = index (events_reidx e2)"
    using assms(1) by (simp add: index_events_reidx)
  ultimately have "events_reidx e1 = events_reidx e2" by simp
  then show ?thesis
    using assms(3,4) by (simp add: mark_event_windows_def mask_confusing_def)
qed

theorem mask_depends_on_positions_only_witness:
  "mark_event_windows engine36_other True =
     Inr \<lparr>b_index = [1, 2, 3, 4, 5, 6, 7, 8, 9, 10],
          b_cols = [(''X'', [True, True, True, False, False, True, True, True, False, False])]\<rparr>"
proof -
  have h: "index (data engine36) = index (data engine36_other)"
    "columns (data engine36) = columns (data engine36_other)"
    "window engine36 = window engine36_other"
    "event_date_index engine36 = event_date_index engine36_other"
    by (simp_all add: ex_defs engine36_other_def panel10_scaled_def columns_def)
  have ev: "\<forall>c\<in>set (columns (data engine36)). \<forall>t\<in>set (index (data engine36)).
       notnull (cell (events engine36) c t) = notnull (cell (events engine36_other) c t)"
    by (simp add: ex_defs engine36_other_def panel10_scaled_def events_3_6_other_def
        columns_def cell_def notnull_def)
  show ?thesis
    using mask_depends_on_positions_only[OF h ev, of True] mew_engine36 by simp
qed

subsection \<open>The pivoter\<close>

lemmas pivot_defs = pivot_def stacked_rows_def where_mask_def fillna_def combine_def col_def

text \<open>
  C1. The panel of the ten daily values 1 to 10 of asset X, one event at day 5, window
  \<open>(-2, 2)\<close> and \<open>event_date_index = 0\<close>: construction returns the engine, and
  \<open>pivot\<close> returns the table with the rows -2 to 2 and the one column (X, day 5)
  holding 3, 4, 5, 6, 7.
\<close>

theorem pivot_day5:
  "init (DataFrame panel10) (DataFrame event_day5) (-2, 2) 0 = Inr engine5 \<and>
   pivot engine5 =
     Inr \<lparr>r_index = [-2, -1, 0, 1, 2],
          r_cols = [((''X'', 5), [Some 3, Some 4, Some 5, Some 6, Some 7])]\<rparr>"
proof
  show "init (DataFrame panel10) (DataFrame event_day5) (-2, 2) 0 = Inr engine5"
    by (rule init_engine5)
  show "pivot engine5 =
     Inr \<lparr>r_index = [-2, -1, 0, 1, 2],
          r_cols = [((''X'', 5), [Some 3, Some 4, Some 5, Some 6, Some 7])]\<rparr>"
    by (simp add: pivot_defs mew_engine5)
       (simp add: ex_defs cell_def notnull_def columns_def map_columns_def map_cells_def
          bfill_col_def ffill_col_def numeral_2_eq_2 fillna_def combine_def)
qed

subsection \<open>The bootstrapper\<close>

lemma columns_append_rows: "columns (append_rows a b) = columns a"
  by (simp add: append_rows_def columns_def comp_def case_prod_unfold)

lemma columns_foldl_append_rows: "columns (foldl append_rows a dfs) = columns a"
  by (induction dfs arbitrary: a) (simp_all add: columns_append_rows)

lemma columns_iloc_rows: "columns (iloc_rows p n df) = columns df"
  by (simp add: iloc_rows_def columns_def comp_def case_prod_unfold)

lemma columns_concat_rows_hd: "columns (concat_rows dfs) = columns (hd dfs)"
proof -
  have "columns \<lparr>index = [], cols = map (\<lambda>c. (c, [])) (columns (hd dfs))\<rparr> = columns (hd dfs)"
    by (simp add: columns_def comp_def)
  then show ?thesis by (simp add: concat_rows_def columns_foldl_append_rows)
qed

lemma columns_concat_rows:
  "ps \<noteq> [] \<Longrightarrow> columns (concat_rows (map (\<lambda>p. iloc_rows p n df) ps)) = columns df"
  by (cases ps) (simp_all add: columns_concat_rows_hd columns_iloc_rows)

lemma columns_dropna_all: "columns (dropna_all df) = columns df"
  by (simp add: dropna_all_def columns_def comp_def case_prod_unfold Let_def)

lemma map_fst_combine: "length a = length b \<Longrightarrow> map fst (combine f a b) = map fst a"
  by (induction a b rule: list_induct2) (simp_all add: combine_def case_prod_unfold)

lemma columns_boot_from:
  assumes "boot_from e = Inr pool"
  shows "columns pool = columns (data e)"
proof -
  from assms obtain m where m: "mark_event_windows e False = Inr m"
    and pool: "pool = dropna_all (where_mask (data e) (bnot m))"
    by (auto simp: boot_from_def split: sum.splits)
  have "length (b_cols (bnot m)) = length (cols (data e))"
    unfolding mark_event_windows_Inr(1)[OF m] by (simp add: bnot_def columns_def)
  then have "columns (where_mask (data e) (bnot m)) = columns (data e)"
    by (simp add: where_mask_def columns_def map_fst_combine)
  then show ?thesis by (simp add: pool columns_dropna_all)
qed

lemma while_short_Some:
  "while_short fuel rng j e pool k n booted = Some (b, j') \<Longrightarrow>
   \<not> short_of e b \<and> columns b = columns booted"
proof (induction fuel arbitrary: j booted)
  case 0
  then show ?case by (auto split: if_splits)
next
  case (Suc fuel)
  show ?case
  proof (cases "short_of e booted")
    case True
    with Suc.prems have
      "while_short fuel rng (Suc j) e pool k n
         (append_rows booted (iloc_rows (rng j mod k) n pool)) = Some (b, j')"
      by simp
    from Suc.IH[OF this] show ?thesis by (simp add: columns_append_rows)
  next
    case False
    with Suc.prems show ?thesis by simp
  qed
qed

lemma col_select_columns: "c \<in> set cs \<Longrightarrow> col (select_columns cs df) c = col df c"
  using map_of_map_key[of c cs "col df"] by (simp add: select_columns_def col_def)

lemma choice_wo_props:
  "distinct pool \<Longrightarrow> v \<le> length pool \<Longrightarrow>
   distinct (choice_wo rng j pool v) \<and> set (choice_wo rng j pool v) \<subseteq> set pool \<and>
   length (choice_wo rng j pool v) = v"
proof (induction v arbitrary: j pool)
  case 0
  then show ?case by simp
next
  case (Suc v)
  let ?i = "rng j mod length pool"
  let ?rest = "take ?i pool @ drop (Suc ?i) pool"
  from Suc.prems have ne: "0 < length pool" by (cases pool) simp_all
  then have i: "?i < length pool" by simp
  have pool: "pool = take ?i pool @ pool ! ?i # drop (Suc ?i) pool"
    using i by (simp add: id_take_nth_drop)
  have dd: "distinct (take ?i pool @ pool ! ?i # drop (Suc ?i) pool)"
    using Suc.prems(1) pool by metis
  have d: "distinct ?rest" and notin: "pool ! ?i \<notin> set ?rest"
    using dd by auto
  have sub: "set ?rest \<subseteq> set pool"
    by (auto dest: in_set_takeD in_set_dropD)
  have l: "v \<le> length ?rest" using Suc.prems(2) i by simp
  from Suc.IH[OF d l, of "Suc j"]
  have ih: "distinct (choice_wo rng (Suc j) ?rest v)"
    "set (choice_wo rng (Suc j) ?rest v) \<subseteq> set ?rest"
    "length (choice_wo rng (Suc j) ?rest v) = v" by simp_all
  have "pool ! ?i \<in> set pool" using i by simp
  with ih notin sub show ?case by (auto simp: Let_def)
qed

lemma map_fst_place_events: "map fst (place_events rng j n cvs) = map fst cvs"
  by (induction rng j n cvs rule: place_events.induct) simp_all

lemma place_events_map_of:
  "map_of (place_events rng j n cvs) c = Some rows \<Longrightarrow>
   \<exists>j' v. map_of cvs c = Some v \<and> rows = choice_wo rng j' [0 ..< n] v"
  by (induction rng j n cvs rule: place_events.induct) (auto split: if_splits)

lemma count_events_frame:
  assumes "map_of placed c = Some rows" "distinct rows"
  shows "count (events_frame placed) c = length rows"
proof -
  define idx where "idx = rev (remdups (rev (map int (concat (map snd placed)))))"
  let ?g = "\<lambda>t. if t \<in> int ` set rows then Some (1::real) else None"
  have cols: "cols (events_frame placed) = map (\<lambda>(c, rows). (c, map (\<lambda>t. if t \<in> int ` set rows then Some 1 else None) idx)) placed"
    by (simp add: events_frame_def idx_def Let_def)
  have "map_of (cols (events_frame placed)) c = Some (map ?g idx)"
    unfolding cols map_of_map using assms(1) by simp
  then have "col (events_frame placed) c = map ?g idx" by (simp add: col_def)
  then have "count (events_frame placed) c = length (filter (\<lambda>t. t \<in> int ` set rows) idx)"
    by (simp add: count_def count_col_def filter_map comp_def)
  also have "\<dots> = card ({t. t \<in> int ` set rows} \<inter> set idx)"
    by (rule distinct_length_filter) (simp add: idx_def)
  also have "{t. t \<in> int ` set rows} \<inter> set idx = int ` set rows"
  proof -
    have "(c, rows) \<in> set placed" using assms(1) by (rule map_of_SomeD)
    then have "set rows \<subseteq> set (concat (map snd placed))" by force
    then have "int ` set rows \<subseteq> set idx" by (auto simp: idx_def)
    then show ?thesis by blast
  qed
  also have "card (int ` set rows) = card (set rows)" by (simp add: card_image)
  also have "\<dots> = length rows" using assms(2) by (simp add: distinct_card)
  finally show ?thesis .
qed

lemma bootstrap_InrE:
  assumes "bootstrap_wo_events fuel rng e b0 = Some (Inr e')"
  obtains pool rc booted j where
    "boot_from e = Inr pool" "rc \<noteq> []"
    "while_short fuel rng (length rc) e pool (nat (int (len pool) - block_size_of e b0))
       (nat (block_size_of e b0))
       (concat_rows (map (\<lambda>p. iloc_rows p (nat (block_size_of e b0)) pool) rc)) = Some (booted, j)"
    "\<not> list_ex (\<lambda>(c, v). len booted < v)
         (map (\<lambda>c. (c, count (events e) c)) (columns (events e)))"
    "init (DataFrame booted)
       (DataFrame (events_frame (place_events rng j (len booted)
          (map (\<lambda>c. (c, count (events e) c)) (columns (events e))))))
       (window e) (event_date_index e) = Inr e'"
  using assms unfolding bootstrap_wo_events_def Let_def
  by (auto split: if_splits sum.splits option.splits prod.splits)

lemma init_frames_Inr:
  assumes "init (DataFrame d) (DataFrame ev) w edi = Inr e'"
  shows "data e' = select_columns (filter (\<lambda>c. c \<in> set (columns d)) (columns ev)) d"
    and "events e' = select_columns (filter (\<lambda>c. c \<in> set (columns d)) (columns ev)) ev"
  using assms by (auto simp: init_def align_inner_def Let_def split: if_splits)

text \<open>
  C5. When \<open>bootstrap_wo_events\<close> returns an engine, from an engine whose panel and events
  have the same columns (as construction leaves them, \<open>init_columns\<close>), every asset has
  in the new panel at least as many values as in the panel, and in the new events as many
  events as it had.
\<close>

theorem bootstrap_counts:
  assumes "bootstrap_wo_events fuel rng e block_size0 = Some (Inr e')"
    and "columns (events e) = columns (data e)" "c \<in> set (columns (data e))"
  shows "count (data e) c \<le> count (data e') c \<and> count (events e') c = count (events e) c"
proof -
  define n_events where "n_events = map (\<lambda>c. (c, count (events e) c)) (columns (events e))"
  from assms(1) obtain pool rc booted j where
    pool: "boot_from e = Inr pool" and rc: "rc \<noteq> []"
    and loop: "while_short fuel rng (length rc) e pool (nat (int (len pool) - block_size_of e block_size0))
       (nat (block_size_of e block_size0))
       (concat_rows (map (\<lambda>p. iloc_rows p (nat (block_size_of e block_size0)) pool) rc)) = Some (booted, j)"
    and fits: "\<not> list_ex (\<lambda>(c, v). len booted < v) n_events"
    and init: "init (DataFrame booted)
       (DataFrame (events_frame (place_events rng j (len booted) n_events)))
       (window e) (event_date_index e) = Inr e'"
    unfolding n_events_def by (rule bootstrap_InrE)
  let ?placed = "place_events rng j (len booted) n_events"
  let ?ev = "events_frame ?placed"
  from while_short_Some[OF loop]
  have ns: "\<not> short_of e booted" and cb: "columns booted = columns (data e)"
    using columns_concat_rows[OF rc, of "nat (block_size_of e block_size0)" pool]
      columns_boot_from[OF pool] by simp_all
  have c1: "columns ?ev = map fst ?placed"
    by (simp add: events_frame_def Let_def columns_def comp_def case_prod_unfold)
  have c2: "map fst ?placed = map fst n_events" by (rule map_fst_place_events)
  have c3: "map fst n_events = columns (events e)" by (simp add: n_events_def comp_def)
  have cev: "columns ?ev = columns (data e)" using c1 c2 c3 assms(2) by simp
  define common where "common = filter (\<lambda>c. c \<in> set (columns booted)) (columns ?ev)"
  have c: "c \<in> set common" using assms(3) by (simp add: common_def cb cev)
  have d': "data e' = select_columns common booted" and ev': "events e' = select_columns common ?ev"
    using init_frames_Inr[OF init] by (simp_all add: common_def)
  have "count (data e') c = count booted c"
    by (simp add: count_def d' col_select_columns[OF c])
  moreover have "count (data e) c \<le> count booted c"
    using ns assms(3) by (auto simp: short_of_def list_ex_iff)
  ultimately have A: "count (data e) c \<le> count (data e') c" by simp
  have v: "map_of n_events c = Some (count (events e) c)"
    unfolding n_events_def using map_of_map_key[of c "columns (events e)" "\<lambda>c. count (events e) c"]
      assms(2,3) by simp
  have "set (map fst ?placed) = set (columns (data e))" using c2 c3 assms(2) by simp
  then have "c \<in> fst ` set ?placed" using assms(3) by simp
  then obtain rows where rows: "map_of ?placed c = Some rows"
    by (metis weak_map_of_SomeI map_of_eq_None_iff not_None_eq)
  from place_events_map_of[OF rows] v obtain j' where
    r: "rows = choice_wo rng j' [0 ..< len booted] (count (events e) c)" by auto
  have "(c, count (events e) c) \<in> set n_events" using v by (rule map_of_SomeD)
  with fits have le: "count (events e) c \<le> len booted" by (auto simp: list_ex_iff)
  have p: "distinct rows" "length rows = count (events e) c"
    using choice_wo_props[of "[0 ..< len booted]" "count (events e) c" rng j'] le
    unfolding r by simp_all
  have "count (events e') c = count ?ev c"
    by (simp add: count_def ev' col_select_columns[OF c])
  also have "\<dots> = count (events e) c"
    using count_events_frame[OF rows p(1)] p(2) by simp
  finally show ?thesis using A by simp
qed

text \<open>
  C7. With a block size that is at least the number of rows of the event-free pool,
  \<open>bootstrap_wo_events\<close> returns an error whatever the random draws and the bound on the
  loop: \<open>ZeroDivisionError\<close> for the block size 0, \<open>ValueError\<close> otherwise.
\<close>

theorem bootstrap_block_too_large:
  assumes "boot_from e = Inr pool" "int (len pool) \<le> block_size_of e block_size0"
  shows "bootstrap_wo_events fuel rng e block_size0 =
           Some (Inl (if block_size_of e block_size0 = 0 then ZeroDivisionError else ValueError))"
proof (cases "block_size_of e block_size0 = 0")
  case True
  then show ?thesis by (simp add: bootstrap_wo_events_def)
next
  case False
  define b where "b = block_size_of e block_size0"
  have b: "0 < b" using False assms(2) by (simp add: b_def)
  have k: "int (len pool) - b \<le> 0" using assms(2) by (simp add: b_def)
  define n_blocks where "n_blocks = - ((- int (len (data e))) div b)"
  have "choice rng 0 (int (len pool) - b) (n_blocks * 2) = Inl ValueError \<or>
        choice rng 0 (int (len pool) - b) (n_blocks * 2) = Inr []"
    using k by (auto simp: choice_def)
  then show ?thesis
    using False assms(1)
    by (auto simp: bootstrap_wo_events_def Let_def b_def[symmetric] n_blocks_def[symmetric])
qed

lemmas boot_defs = boot_from_def where_mask_def combine_def bnot_def dropna_all_def
  row_all_null_def

lemma boot_from_engine5:
  "boot_from engine5 =
     Inr \<lparr>index = [1, 2, 8, 9, 10],
          cols = [(''X'', [Some 1, Some 2, Some 8, Some 9, Some 10])]\<rparr>"
  by (simp add: ex_defs mew_defs boot_defs upt_rec)

lemma boot_from_engine6:
  "boot_from engine6 = Inr \<lparr>index = [4, 5, 6], cols = [(''X'', [Some 4, Some 5, Some 6])]\<rparr>"
  by (simp add: engine6_def panel6_def event_day2_def mew_defs boot_defs upt_rec)

lemma bootstrap_engine6:
  "bootstrap_wo_events 0 (\<lambda>i. i) engine6 (Some 2) = Some (Inr booted6)"
proof -
  have c: "choice (\<lambda>i. i) 0 1 6 = Inr [0, 0, 0, 0, 0, 0]"
    by (simp add: choice_def upt_rec)
  have d: "len (data engine6) = 6" "columns (data engine6) = [''X'']"
    "columns (events engine6) = [''X'']" "count (data engine6) ''X'' = 6"
    "count (events engine6) ''X'' = 1"
    "window engine6 = (-1, 1)" "event_date_index engine6 = 0"
    by (simp_all add: engine6_def panel6_def event_day2_def len_def columns_def count_def
        count_col_def col_def)
  let ?pool = "\<lparr>index = [4, 5, 6], cols = [(''X'', [Some 4, Some 5, Some (6::real)])]\<rparr>"
  let ?b = "\<lparr>index = [0, 1, 2, 3, 4, 5, 6, 7, 8, 9, 10, 11],
               cols = [(''X'', [Some 4, Some 5, Some 4, Some 5, Some 4, Some 5,
                                Some 4, Some 5, Some 4, Some 5, Some 4, Some (5::real)])]\<rparr>"
  have b: "concat_rows (map (\<lambda>p. iloc_rows p 2 ?pool) [0, 0, 0, 0, 0, 0]) = ?b"
    by (simp add: concat_rows_def iloc_rows_def append_rows_def columns_def col_def upt_rec)
  have b': "concat_rows [iloc_rows 0 2 ?pool, iloc_rows 0 2 ?pool, iloc_rows 0 2 ?pool,
                          iloc_rows 0 2 ?pool, iloc_rows 0 2 ?pool, iloc_rows 0 2 ?pool] = ?b"
    using b by simp
  have cb: "count ?b ''X'' = 12" by (simp add: count_def count_col_def col_def)
  have s: "\<not> short_of engine6 ?b"
    by (simp add: short_of_def d cb)
  have l: "len ?b = 12" by (simp add: len_def)
  have lp: "len ?pool = 3" by (simp add: len_def)
  have p: "place_events (\<lambda>i. i) 6 12 [(''X'', 1)] = [(''X'', [6])]"
    by (simp add: upt_rec)
  have ev: "events_frame [(''X'', [6])] = \<lparr>index = [6], cols = [(''X'', [Some 1])]\<rparr>"
    by (simp add: events_frame_def)
  have i: "init (DataFrame ?b) (DataFrame \<lparr>index = [6], cols = [(''X'', [Some 1])]\<rparr>) (-1, 1) 0
           = Inr booted6"
    by (simp add: init_def pd_index_def pd_dropna_index_def dropna_all_index_def
        row_all_null_def index_union_def align_inner_def select_columns_def columns_def col_def
        booted6_def)
  show ?thesis
    by (simp add: bootstrap_wo_events_def block_size_of_def boot_from_engine6 d lp Let_def
        c b' s l p ev i)
qed

theorem bootstrap_counts_witness:
  "bootstrap_wo_events 0 (\<lambda>i. i) engine6 (Some 2) = Some (Inr booted6) \<and>
   count (data engine6) ''X'' \<le> count (data booted6) ''X'' \<and>
   count (events booted6) ''X'' = 1"
proof -
  have c: "columns (events engine6) = columns (data engine6)"
    "''X'' \<in> set (columns (data engine6))"
    by (simp_all add: engine6_def panel6_def event_day2_def columns_def)
  have n: "count (events engine6) ''X'' = 1"
    by (simp add: engine6_def event_day2_def count_def count_col_def col_def)
  show ?thesis
    using bootstrap_counts[OF bootstrap_engine6 c] bootstrap_engine6 n by simp
qed

theorem bootstrap_block_too_large_witness:
  "\<forall>fuel rng. bootstrap_wo_events fuel rng engine5 (Some 10) = Some (Inl ValueError)"
proof (intro allI)
  fix fuel rng
  let ?pool = "\<lparr>index = [1, 2, 8, 9, 10],
                cols = [(''X'', [Some 1, Some 2, Some 8, Some 9, Some (10::real)])]\<rparr>"
  have l: "int (len ?pool) \<le> block_size_of engine5 (Some 10)"
    by (simp add: len_def block_size_of_def)
  show "bootstrap_wo_events fuel rng engine5 (Some 10) = Some (Inl ValueError)"
    using bootstrap_block_too_large[OF boot_from_engine5 l, of fuel rng]
    by (simp add: block_size_of_def)
qed


end
